theory Spec2Isabelle
  imports Main "HOL-Library.List_Lexorder"
begin

unbundle bit_operations_syntax

section \<open>Python values\<close>

text \<open>
  A Python \<open>str\<close> is a sequence of Unicode code points, compared lexicographically by code
  point (a proper prefix is smaller): a list of naturals under the lexicographic order.
  A Python \<open>bytes\<close> or \<open>bytearray\<close> value is a list of 8-bit characters. Python integers
  are unbounded: \<open>int\<close>, or \<open>nat\<close> where the source reads them from unsigned fields or
  takes them from \<open>len\<close>.
\<close>

type_synonym str = "nat list"
type_synonym bytes = "char list"

definition pystr :: "string \<Rightarrow> str" where
  "pystr s = map of_char s"

text \<open>The exceptions the modelled code raises or lets through.\<close>

datatype error =
    ValueError string
  | ImportError string
  | CodecError
  | UnicodeEncodeError
  | StructError
  | AttributeError

text \<open>\<open>sep.join(parts)\<close>.\<close>

fun join :: "str \<Rightarrow> str list \<Rightarrow> str" where
  "join sep [] = []"
| "join sep [p] = p"
| "join sep (p # q # ps) = p @ sep @ join sep (q # ps)"

text \<open>\<open>s.endswith(suffix)\<close>.\<close>

definition endswith :: "'a list \<Rightarrow> 'a list \<Rightarrow> bool" where
  "endswith s suf = (length suf \<le> length s \<and> drop (length s - length suf) s = suf)"

section \<open>FileInfo\<close>

text \<open>
  The entry type of \<open>tree_reader.FileInfo\<close>, with the keyword arguments the readers pass;
  \<open>symlink_target\<close> defaults to \<open>None\<close>.
\<close>

record FileInfo =
  path :: str
  size_bytes :: nat
  mode :: nat
  uid :: nat
  gid :: nat
  is_dir :: bool
  is_symlink :: bool
  symlink_target :: "str option"

section \<open>HFS+ catalog (dmg\_reader.py)\<close>

definition FOLDER_RECORD :: nat where "FOLDER_RECORD = 0x0001"
definition FILE_RECORD :: nat where "FILE_RECORD = 0x0002"
definition ROOT_PARENT_CNID :: nat where "ROOT_PARENT_CNID = 1"
definition ROOT_FOLDER_CNID :: nat where "ROOT_FOLDER_CNID = 2"

definition S_IFLNK :: nat where "S_IFLNK = 40960"   \<comment> \<open>0o120000\<close>
definition S_IFDIR :: nat where "S_IFDIR = 16384"   \<comment> \<open>0o040000\<close>
definition S_IFMT :: nat where "S_IFMT = 61440"     \<comment> \<open>0o170000\<close>

text \<open>
  The \<open>info\<close> dictionary of a catalog entry: folders store \<open>mode\<close>, \<open>uid\<close>, \<open>gid\<close>;
  files store \<open>size\<close> and \<open>extents\<close> as well.
\<close>

record hfs_info =
  info_mode :: nat
  info_uid :: nat
  info_gid :: nat
  info_size :: "nat option"
  info_extents :: "(nat \<times> nat) list option"

text \<open>
  \<open>self.entries\<close>: a dictionary \<open>cnid -> (parent_cnid, name, record_type, info)\<close>.
  Iteration follows insertion order, so it is an association list (a dictionary has
  each key once); a lookup is \<open>map_of\<close>.
\<close>

type_synonym catalog_entry = "nat \<times> str \<times> nat \<times> hfs_info"
type_synonym catalog = "(nat \<times> catalog_entry) list"

record HfsPlusReader =
  image :: bytes
  block_size :: nat
  entries :: catalog

text \<open>
  The loop of \<open>build_path\<close>: \<open>current\<close>, \<open>seen\<close> and \<open>parts\<close> are its variables. It
  stops when \<open>current\<close> is not a key, when it was seen before, or (by \<open>break\<close>) when the
  parent is one of the two root CNIDs.
\<close>

function build_path_loop :: "catalog \<Rightarrow> nat \<Rightarrow> nat set \<Rightarrow> str list \<Rightarrow> str list" where
  "build_path_loop es current seen parts =
     (case map_of es current of
        None \<Rightarrow> parts
      | Some (parent_cnid, name, rec_type, info) \<Rightarrow>
          if current \<in> seen then parts
          else if parent_cnid = ROOT_FOLDER_CNID \<or> parent_cnid = ROOT_PARENT_CNID
               then parts @ [name]
               else build_path_loop es parent_cnid (insert current seen) (parts @ [name]))"
  by pat_completeness auto
termination
proof (relation "measure (\<lambda>(es, current, seen, parts). card (fst ` set es - seen))")
  show "wf (measure (\<lambda>(es, current, seen, parts). card (fst ` set es - seen)))"
    by simp
next
  fix es :: catalog and current :: nat and seen :: "nat set" and parts :: "str list"
    and x2 :: catalog_entry and x y xa ya xb yb
  assume look: "map_of es current = Some x2" and fresh: "current \<notin> seen"
  from look have "current \<in> fst ` set es"
    by (metis map_of_eq_None_iff option.distinct(1))
  then have "fst ` set es - insert current seen \<subset> fst ` set es - seen"
    using fresh by auto
  then have "card (fst ` set es - insert current seen) < card (fst ` set es - seen)"
    by (intro psubset_card_mono) auto
  then show "((es, x, insert current seen, parts @ [xa]), es, current, seen, parts)
       \<in> measure (\<lambda>(es, current, seen, parts). card (fst ` set es - seen))"
    by simp
qed

definition build_path :: "catalog \<Rightarrow> nat \<Rightarrow> str" where
  "build_path es cnid = join (pystr ''/'') (rev (build_path_loop es cnid {} []))"

text \<open>The parent and the name an entry stores.\<close>

definition entry_parent :: "catalog \<Rightarrow> nat \<Rightarrow> nat option" where
  "entry_parent es c = map_option fst (map_of es c)"

definition entry_name :: "catalog \<Rightarrow> nat \<Rightarrow> str" where
  "entry_name es c = (case map_of es c of None \<Rightarrow> [] | Some (p, name, r, i) \<Rightarrow> name)"

definition is_root :: "nat \<Rightarrow> bool" where
  "is_root c = (c = ROOT_FOLDER_CNID \<or> c = ROOT_PARENT_CNID)"

text \<open>
  A parent chain: every element but the last stores the next element as its parent, and
  that parent is not a root CNID.
\<close>

fun parent_chain :: "catalog \<Rightarrow> nat list \<Rightarrow> bool" where
  "parent_chain es [] = True"
| "parent_chain es [c] = True"
| "parent_chain es (c # d # cs) =
     (entry_parent es c = Some d \<and> \<not> is_root d \<and> parent_chain es (d # cs))"


text \<open>\<open>read_file\<close>: the data-fork extents concatenated, truncated to the logical size.\<close>

definition read_file :: "HfsPlusReader \<Rightarrow> nat \<Rightarrow> error + bytes" where
  "read_file h cnid =
     (case map_of (entries h) cnid of
        None \<Rightarrow> Inl (ValueError ''CNID not found'')
      | Some (parent_cnid, name, rec_type, info) \<Rightarrow>
          if rec_type \<noteq> FILE_RECORD then Inl (ValueError ''CNID is not a file'')
          else
            let extents = (case info_extents info of None \<Rightarrow> [] | Some e \<Rightarrow> e);
                logical_size = (case info_size info of None \<Rightarrow> 0 | Some s \<Rightarrow> s);
                data = concat (map (\<lambda>(start_block, block_count).
                         let offset = start_block * block_size h;
                             len = block_count * block_size h
                         in take len (drop offset (image h))) extents)
            in Inr (take logical_size data))"

text \<open>
  One iteration of the loop of \<open>get_all_files\<close>: the item it appends, or \<open>None\<close> when it
  appends nothing (\<open>continue\<close>, or a record type that is neither folder nor file).
\<close>

definition get_all_files_item :: "catalog \<Rightarrow> nat \<times> catalog_entry \<Rightarrow> FileInfo option" where
  "get_all_files_item es ce =
     (case ce of (cnid, parent_cnid, name, rec_type, info) \<Rightarrow>
        if cnid = ROOT_FOLDER_CNID then None
        else
          let p = build_path es cnid in
          if p = [] then None
          else
            let mode_raw0 = info_mode info;
                u = info_uid info;
                g = info_gid info;
                file_type_bits = mode_raw0 AND S_IFMT;
                symlink = (file_type_bits = S_IFLNK);
                dir = (rec_type = FOLDER_RECORD);
                mode_raw =
                  (if dir \<and> mode_raw0 = 0 then S_IFDIR OR 493
                   else if \<not> dir \<and> \<not> symlink \<and> mode_raw0 = 0 then 33188
                   else mode_raw0)
            in
              if rec_type = FOLDER_RECORD then
                Some \<lparr>path = p, size_bytes = 0,
                      mode = (if mode_raw \<noteq> 0 then mode_raw else (S_IFDIR OR 493)),
                      uid = u, gid = g, is_dir = True, is_symlink = False,
                      symlink_target = None\<rparr>
              else if rec_type = FILE_RECORD then
                let sz0 = (case info_size info of None \<Rightarrow> 0 | Some s \<Rightarrow> s);
                    target = None;
                    sz = (if symlink then 0 else sz0)
                in Some \<lparr>path = p, size_bytes = (if symlink then 0 else sz),
                         mode = mode_raw, uid = u, gid = g, is_dir = False,
                         is_symlink = symlink, symlink_target = target\<rparr>
              else None)"

text \<open>\<open>items.sort(key=lambda x: x.path)\<close> is a stable sort on the path.\<close>

definition get_all_files :: "catalog \<Rightarrow> FileInfo list" where
  "get_all_files es = sort_key path (List.map_filter (get_all_files_item es) es)"

section \<open>XAR packages (pkg\_reader.py)\<close>

text \<open>\<open>struct.unpack_from\<close> of a big-endian unsigned integer of \<open>n\<close> bytes.\<close>

definition be_uint :: "bytes \<Rightarrow> nat" where
  "be_uint bs = foldl (\<lambda>acc c. acc * 256 + of_char c) 0 bs"

definition unpack_from :: "nat \<Rightarrow> bytes \<Rightarrow> nat \<Rightarrow> error + nat" where
  "unpack_from n data off =
     (if off + n \<le> length data then Inr (be_uint (take n (drop off data)))
      else Inl StructError)"

definition XAR_MAGIC :: bytes where "XAR_MAGIC = ''xar!''"
definition XAR_HEADER_SIZE :: nat where "XAR_HEADER_SIZE = 28"

record xar_header =
  header_size :: nat
  version :: nat
  toc_compressed_len :: nat
  toc_uncompressed_len :: nat
  cksum_algo :: nat

definition parse_xar_header :: "bytes \<Rightarrow> error + xar_header" where
  "parse_xar_header data =
     (if length data < XAR_HEADER_SIZE then Inl (ValueError ''Data too small for XAR header'')
      else if take 4 data \<noteq> XAR_MAGIC then Inl (ValueError ''Not a XAR file'')
      else Inr \<lparr>header_size = be_uint (take 2 (drop 4 data)),
                version = be_uint (take 2 (drop 6 data)),
                toc_compressed_len = be_uint (take 8 (drop 8 data)),
                toc_uncompressed_len = be_uint (take 8 (drop 16 data)),
                cksum_algo = be_uint (take 4 (drop 24 data))\<rparr>)"

text \<open>The dictionary \<open>find_payloads\<close> builds for one Payload entry of the TOC.\<close>

record payload_info =
  pi_offset :: nat
  pi_length :: nat
  pi_size :: nat
  pi_encoding :: str

text \<open>
  The collaborators of the reader that are not part of this repository's code under
  study: \<open>toc_payloads\<close> stands for \<open>zlib.decompress\<close>, \<open>ET.fromstring\<close> and the TOC
  walk of \<open>find_payloads\<close> applied to the compressed TOC; \<open>gunzip\<close> and \<open>bunzip2\<close> for
  \<open>gzip.decompress\<close> and \<open>bz2.decompress\<close>; \<open>cpio_entries\<close> for the \<open>CpioReader\<close> over
  \<open>gzip.GzipFile\<close>, drained by \<open>next()\<close> until it returns \<open>None\<close>. Each returns the
  exception it raises as \<open>Inl\<close>.
\<close>

record pkg_env =
  toc_payloads :: "bytes \<Rightarrow> error + payload_info list"
  gunzip :: "bytes \<Rightarrow> error + bytes"
  bunzip2 :: "bytes \<Rightarrow> error + bytes"
  cpio_entries :: "bytes \<Rightarrow> error + FileInfo list"

definition parse_xar_toc :: "pkg_env \<Rightarrow> bytes \<Rightarrow> xar_header \<Rightarrow> error + payload_info list" where
  "parse_xar_toc env data header =
     (let toc_start = header_size header;
          toc_end = toc_start + toc_compressed_len header
      in if toc_end > length data then Inl (ValueError ''XAR data truncated: TOC'')
         else toc_payloads env (take (toc_end - toc_start) (drop toc_start data)))"

text \<open>\<open>sub in s\<close> on strings.\<close>

definition contains :: "'a list \<Rightarrow> 'a list \<Rightarrow> bool" where
  "contains s sub = list_ex (\<lambda>i. take (length sub) (drop i s) = sub) [0..<Suc (length s)]"

definition extract_payload :: "pkg_env \<Rightarrow> bytes \<Rightarrow> xar_header \<Rightarrow> payload_info \<Rightarrow> error + bytes" where
  "extract_payload env data header payload =
     (let heap_start = header_size header + toc_compressed_len header;
          pay_start = heap_start + pi_offset payload;
          pay_end = pay_start + pi_length payload
      in if pay_end > length data then Inl (ValueError ''XAR data truncated: Payload'')
         else
           let raw = take (pay_end - pay_start) (drop pay_start data);
               encoding = pi_encoding payload
           in if contains encoding (pystr ''octet-stream'') then Inr raw
              else if contains encoding (pystr ''x-gzip'') then gunzip env raw
              else if contains encoding (pystr ''x-bzip2'') then bunzip2 env raw
              else Inr raw)"

text \<open>
  \<open>PkgReader\<close>: \<open>items\<close> and \<open>index\<close>. \<open>_read_cpio_from_payload\<close> appends the entries of
  one payload in the order the cpio reader yields them; \<open>_load\<close> does so for every payload,
  in TOC order. An exception leaves the constructor, so no reader exists then.
\<close>

record PkgReader =
  items :: "FileInfo list"
  index :: nat

definition read_cpio_from_payload :: "pkg_env \<Rightarrow> FileInfo list \<Rightarrow> bytes \<Rightarrow> error + FileInfo list" where
  "read_cpio_from_payload env its payload_bytes =
     (case cpio_entries env payload_bytes of
        Inl e \<Rightarrow> Inl e
      | Inr infos \<Rightarrow> Inr (its @ infos))"

fun load_payloads :: "pkg_env \<Rightarrow> bytes \<Rightarrow> xar_header \<Rightarrow> FileInfo list \<Rightarrow> payload_info list
    \<Rightarrow> error + FileInfo list" where
  "load_payloads env data header its [] = Inr its"
| "load_payloads env data header its (payload # rest) =
     (case extract_payload env data header payload of
        Inl e \<Rightarrow> Inl e
      | Inr payload_bytes \<Rightarrow>
          (case read_cpio_from_payload env its payload_bytes of
             Inl e \<Rightarrow> Inl e
           | Inr its' \<Rightarrow> load_payloads env data header its' rest))"

definition PkgReader_load :: "pkg_env \<Rightarrow> bytes \<Rightarrow> error + FileInfo list" where
  "PkgReader_load env data =
     (case parse_xar_header data of
        Inl e \<Rightarrow> Inl e
      | Inr header \<Rightarrow>
          (case parse_xar_toc env data header of
             Inl e \<Rightarrow> Inl e
           | Inr payloads \<Rightarrow> load_payloads env data header [] payloads))"

definition PkgReader_init :: "pkg_env \<Rightarrow> bytes \<Rightarrow> error + PkgReader" where
  "PkgReader_init env pkg_data =
     (case PkgReader_load env pkg_data of
        Inl e \<Rightarrow> Inl e
      | Inr its \<Rightarrow> Inr \<lparr>items = its, index = 0\<rparr>)"



section \<open>DmgReader (dmg\_reader.py)\<close>

text \<open>What the code prints on the diagnostic stream.\<close>

datatype warning =
    WarnADC nat
  | WarnUnknownBlock nat
  | WarnPkgFailed str error


definition PKG_PREFIX :: str where "PKG_PREFIX = pystr ''@PKG@/''"

text \<open>
  One iteration of the recursion into \<open>.pkg\<close> files: the \<open>try\<close> block covers \<open>read_file\<close>,
  the \<open>PkgReader\<close> constructor and the loop over its entries; \<open>except Exception\<close> prints
  a warning and goes on with the next catalog entry.
\<close>

definition load_pkg_entry :: "pkg_env \<Rightarrow> HfsPlusReader \<Rightarrow> FileInfo list \<times> warning list
    \<Rightarrow> nat \<times> catalog_entry \<Rightarrow> FileInfo list \<times> warning list" where
  "load_pkg_entry env hfs st ce =
     (case ce of (cnid, parent_cnid, name, rec_type, info) \<Rightarrow>
        if rec_type \<noteq> FILE_RECORD \<or> \<not> endswith name (pystr ''.pkg'') then st
        else
          let pkg_path = build_path (entries hfs) cnid in
          (case read_file hfs cnid of
             Inl e \<Rightarrow> (fst st, snd st @ [WarnPkgFailed pkg_path e])
           | Inr pkg_bytes \<Rightarrow>
               if pkg_bytes = [] \<or> take 4 pkg_bytes \<noteq> ''xar!'' then st
               else
                 (case PkgReader_init env pkg_bytes of
                    Inl e \<Rightarrow> (fst st, snd st @ [WarnPkgFailed pkg_path e])
                  | Inr pkg \<Rightarrow>
                      (fst st @ map (\<lambda>entry. entry\<lparr>path := PKG_PREFIX @ path entry\<rparr>) (items pkg),
                       snd st))))"

text \<open>
  \<open>_load\<close>, from the outcome of its first two steps (\<open>decompress_udif\<close> and the
  \<open>HfsPlusReader\<close> constructor, which may raise): the sorted items and the warnings.
\<close>

definition DmgReader_load :: "pkg_env \<Rightarrow> error + HfsPlusReader
    \<Rightarrow> error + (FileInfo list \<times> warning list)" where
  "DmgReader_load env opened =
     (case opened of
        Inl e \<Rightarrow> Inl e
      | Inr hfs \<Rightarrow>
          let st0 = (get_all_files (entries hfs), []);
              st = foldl (load_pkg_entry env hfs) st0 (entries hfs)
          in Inr (sort_key path (fst st), snd st))"




text \<open>
  The recursion as the specification words it: the contribution of one catalog entry.
  An entry that is a file, whose name ends in \<open>.pkg\<close> and whose bytes start with
  \<open>xar!\<close> contributes the entries of the inner package, each path prefixed with
  \<open>@PKG@/\<close>; if reading or parsing it fails, it contributes a warning and no entry.
\<close>

definition inner_entries :: "pkg_env \<Rightarrow> HfsPlusReader \<Rightarrow> nat \<times> catalog_entry \<Rightarrow> FileInfo list" where
  "inner_entries env hfs ce =
     (case ce of (cnid, parent_cnid, name, rec_type, info) \<Rightarrow>
        if rec_type = FILE_RECORD \<and> endswith name (pystr ''.pkg'') then
          (case read_file hfs cnid of
             Inl e \<Rightarrow> []
           | Inr pkg_bytes \<Rightarrow>
               if take 4 pkg_bytes = ''xar!'' then
                 (case PkgReader_load env pkg_bytes of
                    Inl e \<Rightarrow> []
                  | Inr ents \<Rightarrow> map (\<lambda>entry. entry\<lparr>path := PKG_PREFIX @ path entry\<rparr>) ents)
               else [])
        else [])"

definition inner_warnings :: "pkg_env \<Rightarrow> HfsPlusReader \<Rightarrow> nat \<times> catalog_entry \<Rightarrow> warning list" where
  "inner_warnings env hfs ce =
     (case ce of (cnid, parent_cnid, name, rec_type, info) \<Rightarrow>
        if rec_type = FILE_RECORD \<and> endswith name (pystr ''.pkg'') then
          (case read_file hfs cnid of
             Inl e \<Rightarrow> [WarnPkgFailed (build_path (entries hfs) cnid) e]
           | Inr pkg_bytes \<Rightarrow>
               if take 4 pkg_bytes = ''xar!'' then
                 (case PkgReader_load env pkg_bytes of
                    Inl e \<Rightarrow> [WarnPkgFailed (build_path (entries hfs) cnid) e]
                  | Inr ents \<Rightarrow> [])
               else [])
        else [])"

text \<open>
  Concrete stand-ins for the collaborators, to run the readers on explicit inputs: a
  XAR header of 28 bytes with an empty TOC and heap, a TOC walk that finds one stored
  Payload, a cpio reader that yields the two entries of its archive in archive order
  (\<open>b\<close> before \<open>a\<close>), and one whose archive is damaged.
\<close>

definition example_entry :: "string \<Rightarrow> FileInfo" where
  "example_entry p = \<lparr>path = pystr p, size_bytes = 0, mode = 33188, uid = 0, gid = 0,
     is_dir = False, is_symlink = False, symlink_target = None\<rparr>"

definition example_xar :: bytes where
  "example_xar = ''xar!'' @ [CHR 0x00, CHR 0x1C, CHR 0x00, CHR 0x01,
     CHR 0x00, CHR 0x00, CHR 0x00, CHR 0x00,
     CHR 0x00, CHR 0x00, CHR 0x00, CHR 0x00,
     CHR 0x00, CHR 0x00, CHR 0x00, CHR 0x00,
     CHR 0x00, CHR 0x00, CHR 0x00, CHR 0x00,
     CHR 0x00, CHR 0x00, CHR 0x00, CHR 0x00]"

definition example_toc :: "bytes \<Rightarrow> error + payload_info list" where
  "example_toc toc = Inr [\<lparr>pi_offset = 0, pi_length = 0, pi_size = 0,
     pi_encoding = pystr ''application/octet-stream''\<rparr>]"

definition example_codec_fails :: "bytes \<Rightarrow> error + bytes" where
  "example_codec_fails b = Inl CodecError"

definition example_cpio :: "bytes \<Rightarrow> error + FileInfo list" where
  "example_cpio payload = Inr [example_entry ''b'', example_entry ''a'']"

definition example_cpio_fails :: "bytes \<Rightarrow> error + FileInfo list" where
  "example_cpio_fails payload = Inl (ValueError ''Invalid cpio magic'')"

definition example_pkg_env :: pkg_env where
  "example_pkg_env = \<lparr>toc_payloads = example_toc, gunzip = example_codec_fails,
     bunzip2 = example_codec_fails, cpio_entries = example_cpio\<rparr>"

definition example_bad_pkg_env :: pkg_env where
  "example_bad_pkg_env = \<lparr>toc_payloads = example_toc, gunzip = example_codec_fails,
     bunzip2 = example_codec_fails, cpio_entries = example_cpio_fails\<rparr>"

text \<open>
  A volume whose catalog holds the file \<open>a.pkg\<close> in the root folder; its data fork is
  the first block of the image, which holds \<open>example_xar\<close>.
\<close>

definition example_hfs :: HfsPlusReader where
  "example_hfs = \<lparr>image = example_xar, block_size = 32,
     entries = [(16, (2, pystr ''a.pkg'', FILE_RECORD,
        \<lparr>info_mode = 33188, info_uid = 0, info_gid = 0, info_size = Some 28,
         info_extents = Some [(0, 1)]\<rparr>))]\<rparr>"


definition example_cycle :: catalog where
  "example_cycle =
     [(10, (11, pystr ''a'', FOLDER_RECORD,
        \<lparr>info_mode = 0, info_uid = 0, info_gid = 0, info_size = None,
         info_extents = None\<rparr>)),
      (11, (10, pystr ''b'', FOLDER_RECORD,
        \<lparr>info_mode = 0, info_uid = 0, info_gid = 0, info_size = None,
         info_extents = None\<rparr>))]"

section \<open>UDIF chunks (dmg\_reader.py)\<close>











section \<open>Encoding strings and integers\<close>

text \<open>
  \<open>s.encode('utf-8')\<close>: one to four bytes per code point; a surrogate (and anything
  beyond U+10FFFF) raises \<open>UnicodeEncodeError\<close>.
\<close>

definition utf8_char :: "nat \<Rightarrow> bytes option" where
  "utf8_char c =
     (if c < 0x80 then Some [char_of c]
      else if c < 0x800 then Some [char_of (0xC0 + c div 64), char_of (0x80 + c mod 64)]
      else if c < 0x10000 then
        (if 0xD800 \<le> c \<and> c \<le> 0xDFFF then None
         else Some [char_of (0xE0 + c div 4096), char_of (0x80 + c div 64 mod 64),
                    char_of (0x80 + c mod 64)])
      else if c < 0x110000 then
        Some [char_of (0xF0 + c div 262144), char_of (0x80 + c div 4096 mod 64),
              char_of (0x80 + c div 64 mod 64), char_of (0x80 + c mod 64)]
      else None)"

fun encode_utf8 :: "str \<Rightarrow> error + bytes" where
  "encode_utf8 [] = Inr []"
| "encode_utf8 (c # cs) =
     (case utf8_char c of
        None \<Rightarrow> Inl UnicodeEncodeError
      | Some b \<Rightarrow> (case encode_utf8 cs of Inl e \<Rightarrow> Inl e | Inr bs \<Rightarrow> Inr (b @ bs)))"





text \<open>
  \<open>struct.pack\<close> of one big-endian unsigned integer of \<open>n\<close> bytes (\<open>>B\<close>, \<open>>H\<close>,
  \<open>>I\<close>): a value out of range raises \<open>struct.error\<close>.
\<close>

definition be_bytes :: "nat \<Rightarrow> nat \<Rightarrow> bytes" where
  "be_bytes n v = map (\<lambda>i. char_of (v div 256 ^ (n - 1 - i))) [0..<n]"

definition pack_uint :: "nat \<Rightarrow> int \<Rightarrow> error + bytes" where
  "pack_uint n v = (if 0 \<le> v \<and> v < 256 ^ n then Inr (be_bytes n (nat v)) else Inl StructError)"

section \<open>CPIO writer (cpio\_writer.py)\<close>
















section \<open>RPM header builder (rpm\_writer.py)\<close>

definition RPM_HEADER_MAGIC :: bytes where
  "RPM_HEADER_MAGIC = [CHR 0x8E, CHR 0xAD, CHR 0xE8]"
definition RPM_HEADER_VERSION :: int where "RPM_HEADER_VERSION = 1"

definition HEADER_INT16 :: nat where "HEADER_INT16 = 3"
definition HEADER_INT32 :: nat where "HEADER_INT32 = 4"
definition HEADER_INT64 :: nat where "HEADER_INT64 = 5"
definition HEADER_STRING :: nat where "HEADER_STRING = 6"
definition HEADER_BIN :: nat where "HEADER_BIN = 7"
definition HEADER_STRING_ARRAY :: nat where "HEADER_STRING_ARRAY = 8"
definition HEADER_I18NSTRING :: nat where "HEADER_I18NSTRING = 9"

text \<open>
  An entry \<open>(tag, type, data)\<close> of the builder: the type code decides how \<open>data\<close> is
  read, so the pair of both is a value of a sum type, and \<open>dtype\<close> gives the code back.
\<close>

datatype hvalue =
    Int16 "int list"
  | Int32 "int list"
  | Int64 "int list"
  | String str
  | StringArray "str list"
  | I18NString str
  | Bin bytes

fun dtype :: "hvalue \<Rightarrow> nat" where
  "dtype (Int16 d) = HEADER_INT16"
| "dtype (Int32 d) = HEADER_INT32"
| "dtype (Int64 d) = HEADER_INT64"
| "dtype (String d) = HEADER_STRING"
| "dtype (StringArray d) = HEADER_STRING_ARRAY"
| "dtype (I18NString d) = HEADER_I18NSTRING"
| "dtype (Bin d) = HEADER_BIN"

type_synonym hentry = "int \<times> hvalue"


text \<open>The two alignment loops \<open>while data_store.tell() % k: data_store.write(b'\x00')\<close>.\<close>

function align2 :: "bytes \<Rightarrow> bytes" where
  "align2 ds = (if length ds mod 2 \<noteq> 0 then align2 (ds @ [CHR 0x00]) else ds)"
  by pat_completeness auto
termination
proof (relation "measure (\<lambda>ds. (2 - length ds mod 2) mod 2)")
  show "wf (measure (\<lambda>ds :: bytes. (2 - length ds mod 2) mod 2))"
    by simp
next
  fix ds :: bytes
  assume "length ds mod 2 \<noteq> 0"
  then have "(2 - Suc (length ds) mod 2) mod 2 < (2 - length ds mod 2) mod 2"
    by (simp add: mod_Suc)
  then show "(ds @ [CHR 0x00], ds) \<in> measure (\<lambda>ds. (2 - length ds mod 2) mod 2)"
    by simp
qed

function align4 :: "bytes \<Rightarrow> bytes" where
  "align4 ds = (if length ds mod 4 \<noteq> 0 then align4 (ds @ [CHR 0x00]) else ds)"
  by pat_completeness auto
termination
proof (relation "measure (\<lambda>ds. (4 - length ds mod 4) mod 4)")
  show "wf (measure (\<lambda>ds :: bytes. (4 - length ds mod 4) mod 4))"
    by simp
next
  fix ds :: bytes
  assume "length ds mod 4 \<noteq> 0"
  then have "(4 - Suc (length ds) mod 4) mod 4 < (4 - length ds mod 4) mod 4"
    by (simp add: mod_Suc) presburger
  then show "(ds @ [CHR 0x00], ds) \<in> measure (\<lambda>ds. (4 - length ds mod 4) mod 4)"
    by simp
qed

text \<open>The loops that write each integer, and each string with its terminating NUL.\<close>

fun pack_all :: "nat \<Rightarrow> int list \<Rightarrow> error + bytes" where
  "pack_all n [] = Inr []"
| "pack_all n (v # vs) =
     (case pack_uint n v of
        Inl e \<Rightarrow> Inl e
      | Inr b \<Rightarrow> (case pack_all n vs of Inl e \<Rightarrow> Inl e | Inr bs \<Rightarrow> Inr (b @ bs)))"

fun encode_all :: "str list \<Rightarrow> error + bytes" where
  "encode_all [] = Inr []"
| "encode_all (s # ss) =
     (case encode_utf8 s of
        Inl e \<Rightarrow> Inl e
      | Inr b \<Rightarrow> (case encode_all ss of Inl e \<Rightarrow> Inl e | Inr bs \<Rightarrow> Inr (b @ [CHR 0x00] @ bs)))"

record index_entry =
  ie_tag :: int
  ie_type :: nat
  ie_offset :: nat
  ie_count :: nat

text \<open>
  One iteration of the loop of \<open>build\<close> over the sorted entries, on the data store and
  the index entries so far.
\<close>

definition build_entry :: "bytes \<times> index_entry list \<Rightarrow> hentry
    \<Rightarrow> error + (bytes \<times> index_entry list)" where
  "build_entry st e =
     (case e of (tag, v) \<Rightarrow>
        let ds = (case v of
                    Int16 d \<Rightarrow> align2 (fst st)
                  | Int32 d \<Rightarrow> align4 (fst st)
                  | Int64 d \<Rightarrow> align4 (fst st)
                  | _ \<Rightarrow> fst st);
            offset = length ds;
            ix = (\<lambda>count. snd st @ [\<lparr>ie_tag = tag, ie_type = dtype v, ie_offset = offset,
                                      ie_count = count\<rparr>])
        in (case v of
              Int16 data \<Rightarrow>
                (case pack_all 2 data of
                   Inl err \<Rightarrow> Inl err
                 | Inr b \<Rightarrow> Inr (ds @ b, ix (length data)))
            | Int32 data \<Rightarrow>
                (case pack_all 4 data of
                   Inl err \<Rightarrow> Inl err
                 | Inr b \<Rightarrow> Inr (ds @ b, ix (length data)))
            | String data \<Rightarrow>
                (case encode_utf8 data of
                   Inl err \<Rightarrow> Inl err
                 | Inr b \<Rightarrow> Inr (ds @ b @ [CHR 0x00], ix 1))
            | StringArray data \<Rightarrow>
                (case encode_all data of
                   Inl err \<Rightarrow> Inl err
                 | Inr b \<Rightarrow> Inr (ds @ b, ix (length data)))
            | I18NString data \<Rightarrow>
                (case encode_utf8 data of
                   Inl err \<Rightarrow> Inl err
                 | Inr b \<Rightarrow> Inr (ds @ b @ [CHR 0x00], ix 1))
            | Bin data \<Rightarrow> Inr (ds @ data, ix (length data))
            | Int64 data \<Rightarrow> Inl (ValueError ''Unsupported header type'')))"

fun build_entries :: "bytes \<times> index_entry list \<Rightarrow> hentry list
    \<Rightarrow> error + (bytes \<times> index_entry list)" where
  "build_entries st [] = Inr st"
| "build_entries st (e # es) =
     (case build_entry st e of Inl err \<Rightarrow> Inl err | Inr st' \<Rightarrow> build_entries st' es)"

definition pack_index :: "index_entry \<Rightarrow> error + bytes" where
  "pack_index ie =
     (case pack_uint 4 (ie_tag ie) of Inl e \<Rightarrow> Inl e | Inr t \<Rightarrow>
     (case pack_uint 4 (int (ie_type ie)) of Inl e \<Rightarrow> Inl e | Inr d \<Rightarrow>
     (case pack_uint 4 (int (ie_offset ie)) of Inl e \<Rightarrow> Inl e | Inr off \<Rightarrow>
     (case pack_uint 4 (int (ie_count ie)) of Inl e \<Rightarrow> Inl e | Inr c \<Rightarrow>
        Inr (t @ d @ off @ c)))))"

fun pack_indexes :: "index_entry list \<Rightarrow> error + bytes" where
  "pack_indexes [] = Inr []"
| "pack_indexes (ie # ies) =
     (case pack_index ie of
        Inl e \<Rightarrow> Inl e
      | Inr b \<Rightarrow> (case pack_indexes ies of Inl e \<Rightarrow> Inl e | Inr bs \<Rightarrow> Inr (b @ bs)))"

text \<open>
  \<open>RpmHeaderBuilder.build\<close>: the stable sort by tag, the loop, then magic, version,
  four reserved bytes, the two counts, the index and the data store.
\<close>

definition build :: "hentry list \<Rightarrow> error + bytes" where
  "build es =
     (case build_entries ([], []) (sort_key fst es) of
        Inl e \<Rightarrow> Inl e
      | Inr (data_store, index_entries) \<Rightarrow>
     (case pack_uint 1 RPM_HEADER_VERSION of Inl e \<Rightarrow> Inl e | Inr ver \<Rightarrow>
     (case pack_uint 4 (int (length index_entries)) of Inl e \<Rightarrow> Inl e | Inr n \<Rightarrow>
     (case pack_uint 4 (int (length data_store)) of Inl e \<Rightarrow> Inl e | Inr dl \<Rightarrow>
     (case pack_indexes index_entries of Inl e \<Rightarrow> Inl e | Inr ixs \<Rightarrow>
        Inr (RPM_HEADER_MAGIC @ ver @ replicate 4 (CHR 0x00) @ n @ dl @ ixs @ data_store))))))"


section \<open>RPM writer (rpm\_writer.py)\<close>


































section \<open>The SVR4 newc layout\<close>

text \<open>
  The archive as the specification describes it. An entry has the fields below (the
  inode is its position in the archive, from 1); its bytes are the header of ASCII hex
  fields, the NUL-terminated name, padding, the content and padding. The fields of the
  entry of a call: the mode with the file-type bits of the call's kind ORed in when it
  has none, link count 2 for a directory and 1 otherwise, the encoded target as the
  content of a symbolic link.
\<close>

definition utf8 :: "str \<Rightarrow> bytes" where
  "utf8 s = (case encode_utf8 s of Inl e \<Rightarrow> [] | Inr b \<Rightarrow> b)"

definition encodable :: "str \<Rightarrow> bool" where
  "encodable s = (case encode_utf8 s of Inl e \<Rightarrow> False | Inr b \<Rightarrow> True)"








definition u32 :: "int \<Rightarrow> bool" where
  "u32 x = (0 \<le> x \<and> x < 4294967296)"


section \<open>The RPM header layout\<close>

text \<open>
  The header section as the specification describes it. A value is stored at the next
  offset that is a multiple of its alignment (2 for INT16, 4 for INT32 and INT64, 1
  otherwise), after NUL padding; integers are big-endian, strings are UTF-8 followed by
  a NUL; the count is the number of elements, 1 for a string, the length for binary
  data. \<open>layout pos es\<close> gives the index entries and the bytes for the entries \<open>es\<close>
  stored from position \<open>pos\<close> of the data store on.
\<close>

fun value_align :: "hvalue \<Rightarrow> nat" where
  "value_align (Int16 d) = 2"
| "value_align (Int32 d) = 4"
| "value_align (Int64 d) = 4"
| "value_align (String s) = 1"
| "value_align (StringArray ss) = 1"
| "value_align (I18NString s) = 1"
| "value_align (Bin b) = 1"

fun value_count :: "hvalue \<Rightarrow> nat" where
  "value_count (Int16 d) = length d"
| "value_count (Int32 d) = length d"
| "value_count (Int64 d) = length d"
| "value_count (String s) = 1"
| "value_count (StringArray ss) = length ss"
| "value_count (I18NString s) = 1"
| "value_count (Bin b) = length b"

fun value_bytes :: "hvalue \<Rightarrow> bytes" where
  "value_bytes (Int16 d) = concat (map (\<lambda>v. be_bytes 2 (nat v)) d)"
| "value_bytes (Int32 d) = concat (map (\<lambda>v. be_bytes 4 (nat v)) d)"
| "value_bytes (Int64 d) = concat (map (\<lambda>v. be_bytes 8 (nat v)) d)"
| "value_bytes (String s) = utf8 s @ [CHR 0x00]"
| "value_bytes (StringArray ss) = concat (map (\<lambda>s. utf8 s @ [CHR 0x00]) ss)"
| "value_bytes (I18NString s) = utf8 s @ [CHR 0x00]"
| "value_bytes (Bin b) = b"

text \<open>
  The values \<open>build\<close> can write: integers within the range of their width, strings
  that can be encoded, and no INT64 value, for which the builder has no writer.
\<close>

fun value_ok :: "hvalue \<Rightarrow> bool" where
  "value_ok (Int16 d) = (\<forall>v \<in> set d. 0 \<le> v \<and> v < 65536)"
| "value_ok (Int32 d) = (\<forall>v \<in> set d. u32 v)"
| "value_ok (Int64 d) = False"
| "value_ok (String s) = encodable s"
| "value_ok (StringArray ss) = (\<forall>s \<in> set ss. encodable s)"
| "value_ok (I18NString s) = encodable s"
| "value_ok (Bin b) = True"

definition padding :: "nat \<Rightarrow> nat \<Rightarrow> nat" where
  "padding a pos = (a - pos mod a) mod a"

fun layout :: "nat \<Rightarrow> hentry list \<Rightarrow> index_entry list \<times> bytes" where
  "layout pos [] = ([], [])"
| "layout pos (e # es) =
     (let pad = padding (value_align (snd e)) pos;
          off = pos + pad;
          rest = layout (off + length (value_bytes (snd e))) es
      in (\<lparr>ie_tag = fst e, ie_type = dtype (snd e), ie_offset = off,
           ie_count = value_count (snd e)\<rparr> # fst rest,
          replicate pad (CHR 0x00) @ value_bytes (snd e) @ snd rest))"

definition index_bytes :: "index_entry \<Rightarrow> bytes" where
  "index_bytes ie = be_bytes 4 (nat (ie_tag ie)) @ be_bytes 4 (ie_type ie)
     @ be_bytes 4 (ie_offset ie) @ be_bytes 4 (ie_count ie)"

definition header_bytes :: "index_entry list \<times> bytes \<Rightarrow> bytes" where
  "header_bytes l =
     RPM_HEADER_MAGIC @ [CHR 0x01] @ replicate 4 (CHR 0x00)
       @ be_bytes 4 (length (fst l)) @ be_bytes 4 (length (snd l))
       @ concat (map index_bytes (fst l)) @ snd l"

definition entries_ok :: "hentry list \<Rightarrow> bool" where
  "entries_ok es =
     ((\<forall>e \<in> set es. u32 (fst e) \<and> value_ok (snd e))
      \<and> length es < 4294967296
      \<and> length (snd (layout 0 (sort_key fst es))) < 4294967296)"

section \<open>The per-file arrays of the RPM header\<close>








definition example_later_clock :: "nat \<Rightarrow> int" where
  "example_later_clock k = 1700000001"









section \<open>Properties of the HFS+ walker and the DMG reader\<close>

declare build_path_loop.simps [simp del]
declare align2.simps [simp del]
declare align4.simps [simp del]

subsection \<open>Path reconstruction\<close>

lemma build_path_loop_chain:
  "\<exists>chain. distinct chain \<and> set chain \<inter> seen = {}
     \<and> (\<forall>c \<in> set chain. map_of es c \<noteq> None)
     \<and> (chain = [] \<longleftrightarrow> map_of es current = None \<or> current \<in> seen)
     \<and> (chain \<noteq> [] \<longrightarrow> hd chain = current)
     \<and> parent_chain es chain
     \<and> (chain \<noteq> [] \<longrightarrow>
          (case entry_parent es (last chain) of
             None \<Rightarrow> False
           | Some p \<Rightarrow> is_root p \<or> map_of es p = None \<or> p \<in> seen \<or> p \<in> set chain))
     \<and> build_path_loop es current seen parts = parts @ map (entry_name es) chain"
proof (induction es current seen parts rule: build_path_loop.induct)
  case (1 es current seen parts)
  show ?case
  proof (cases "map_of es current")
    case None
    then show ?thesis
      by (intro exI [of _ "[]"]) (simp add: build_path_loop.simps [of es current])
  next
    case (Some e)
    obtain p name rt info where e: "e = (p, name, rt, info)"
      by (cases e) auto
    have nm: "entry_name es current = name"
      by (simp add: entry_name_def Some e)
    have par: "entry_parent es current = Some p"
      by (simp add: entry_parent_def Some e)
    show ?thesis
    proof (cases "current \<in> seen")
      case True
      then show ?thesis
        by (intro exI [of _ "[]"]) (simp add: build_path_loop.simps [of es current] Some e)
    next
      case fresh: False
      show ?thesis
      proof (cases "is_root p")
        case True
        then have "build_path_loop es current seen parts = parts @ [name]"
          by (simp add: build_path_loop.simps [of es current] Some e fresh is_root_def)
        then show ?thesis
          using fresh True Some par nm
          by (intro exI [of _ "[current]"]) simp
      next
        case False
        then have np: "\<not> (p = ROOT_FOLDER_CNID \<or> p = ROOT_PARENT_CNID)"
          by (simp add: is_root_def)
        from "1.IH" [OF Some e [symmetric] refl refl fresh np]
        obtain chain where cc:
          "distinct chain \<and> set chain \<inter> insert current seen = {}
          \<and> (\<forall>c \<in> set chain. map_of es c \<noteq> None)
          \<and> (chain = [] \<longleftrightarrow> map_of es p = None \<or> p \<in> insert current seen)
          \<and> (chain \<noteq> [] \<longrightarrow> hd chain = p)
          \<and> parent_chain es chain
          \<and> (chain \<noteq> [] \<longrightarrow>
             (case entry_parent es (last chain) of
                None \<Rightarrow> False
              | Some q \<Rightarrow> is_root q \<or> map_of es q = None \<or> q \<in> insert current seen
                         \<or> q \<in> set chain))
          \<and> build_path_loop es p (insert current seen) (parts @ [name])
             = (parts @ [name]) @ map (entry_name es) chain" ..
        note c1 = cc [THEN conjunct1]
        note r1 = cc [THEN conjunct2]
        note c2 = r1 [THEN conjunct1]
        note r2 = r1 [THEN conjunct2]
        note c3 = r2 [THEN conjunct1]
        note r3 = r2 [THEN conjunct2]
        note c4 = r3 [THEN conjunct1]
        note r4 = r3 [THEN conjunct2]
        note c5 = r4 [THEN conjunct1]
        note r5 = r4 [THEN conjunct2]
        note c6 = r5 [THEN conjunct1]
        note r6 = r5 [THEN conjunct2]
        note c7 = r6 [THEN conjunct1]
        note c8 = r6 [THEN conjunct2]
        have loop: "build_path_loop es current seen parts
            = parts @ map (entry_name es) (current # chain)"
          using c8 by (simp add: build_path_loop.simps [of es current] Some e fresh np nm)
        have pc: "parent_chain es (current # chain)"
          using c5 c6 par False by (cases chain) auto
        have stop: "case entry_parent es (last (current # chain)) of
                None \<Rightarrow> False
              | Some q \<Rightarrow> is_root q \<or> map_of es q = None \<or> q \<in> seen
                         \<or> q \<in> set (current # chain)"
        proof (cases "chain = []")
          case True
          then show ?thesis using c4 par by auto
        next
          case False
          then show ?thesis using c7 by (auto split: option.splits)
        qed
        have d: "distinct (current # chain)" "set (current # chain) \<inter> seen = {}"
          "\<forall>c \<in> set (current # chain). map_of es c \<noteq> None"
          using c1 c2 c3 fresh Some e by auto
        show ?thesis
          apply (intro exI [of _ "current # chain"] conjI)
          using d loop pc stop Some fresh by simp_all
      qed
    qed
  qed
qed

text \<open>
  Claim C9. \<open>build_path\<close> is a total function: its loop terminates on every catalog and
  every starting CNID, also when the parent links form a cycle, because the visited set
  grows within the finite set of keys. Its result is the names along the parent chain,
  reversed and joined with a slash. The chain starts at the given CNID (it is empty
  when that is not a key), follows the stored parent links, visits no CNID twice and so
  is no longer than the catalog, and ends at the first entry whose parent is
  \<open>ROOT_FOLDER_CNID\<close> or \<open>ROOT_PARENT_CNID\<close>, is not in the catalog, or was visited.
\<close>

theorem build_path_follows_parent_chain:
  "\<exists>chain. distinct chain
     \<and> (\<forall>c \<in> set chain. map_of es c \<noteq> None)
     \<and> (chain = [] \<longleftrightarrow> map_of es cnid = None)
     \<and> (chain \<noteq> [] \<longrightarrow> hd chain = cnid)
     \<and> parent_chain es chain
     \<and> (chain \<noteq> [] \<longrightarrow>
          (case entry_parent es (last chain) of
             None \<Rightarrow> False
           | Some p \<Rightarrow> is_root p \<or> map_of es p = None \<or> p \<in> set chain))
     \<and> length chain \<le> length es
     \<and> build_path es cnid = join (pystr ''/'') (rev (map (entry_name es) chain))"
proof -
  from build_path_loop_chain [of "{}" es cnid "[]"]
  obtain chain where cc:
    "distinct chain \<and> set chain \<inter> {} = {}
     \<and> (\<forall>c \<in> set chain. map_of es c \<noteq> None)
     \<and> (chain = [] \<longleftrightarrow> map_of es cnid = None \<or> cnid \<in> {})
     \<and> (chain \<noteq> [] \<longrightarrow> hd chain = cnid)
     \<and> parent_chain es chain
     \<and> (chain \<noteq> [] \<longrightarrow>
          (case entry_parent es (last chain) of
             None \<Rightarrow> False
           | Some p \<Rightarrow> is_root p \<or> map_of es p = None \<or> p \<in> {} \<or> p \<in> set chain))
     \<and> build_path_loop es cnid {} [] = [] @ map (entry_name es) chain" ..
  note c1 = cc [THEN conjunct1]
  note r1 = cc [THEN conjunct2]
  note r2 = r1 [THEN conjunct2]
  note c3 = r2 [THEN conjunct1]
  note r3 = r2 [THEN conjunct2]
  note c4 = r3 [THEN conjunct1, simplified]
  note r4 = r3 [THEN conjunct2]
  note c5 = r4 [THEN conjunct1]
  note r5 = r4 [THEN conjunct2]
  note c6 = r5 [THEN conjunct1]
  note r6 = r5 [THEN conjunct2]
  note c7 = r6 [THEN conjunct1]
  note c8 = r6 [THEN conjunct2, simplified]
  have "set chain \<subseteq> fst ` set es"
    using c3 by (auto simp: map_of_eq_None_iff)
  then have "card (set chain) \<le> card (fst ` set es)"
    by (intro card_mono) auto
  also have "\<dots> \<le> length es"
    by (metis card_image_le card_length le_trans List.finite_set)
  finally have len: "length chain \<le> length es"
    using c1 by (simp add: distinct_card)
  show ?thesis
    unfolding build_path_def
    apply (intro exI [of _ chain] conjI)
    using c1 c3 c4 c5 c6 c7 c8 len by (simp_all split: option.splits)
qed

lemma build_path_example_cycle: "build_path example_cycle 10 = pystr ''b/a''"
  by (simp add: build_path_def example_cycle_def build_path_loop.simps [of _ 10]
      build_path_loop.simps [of _ 11] ROOT_FOLDER_CNID_def ROOT_PARENT_CNID_def pystr_def)

theorem build_path_follows_parent_chain_witness:
  "map_of example_cycle 10 \<noteq> None
   \<and> (\<exists>chain. chain \<noteq> [] \<and> hd chain = 10 \<and> distinct chain \<and> length chain \<le> 2
        \<and> pystr ''b/a'' = join (pystr ''/'') (rev (map (entry_name example_cycle) chain)))"
proof -
  have key: "map_of example_cycle 10 \<noteq> None"
    by (simp add: example_cycle_def)
  from build_path_follows_parent_chain [of example_cycle 10]
  obtain chain where c:
    "distinct chain
     \<and> (\<forall>c \<in> set chain. map_of example_cycle c \<noteq> None)
     \<and> (chain = [] \<longleftrightarrow> map_of example_cycle 10 = None)
     \<and> (chain \<noteq> [] \<longrightarrow> hd chain = 10)
     \<and> parent_chain example_cycle chain
     \<and> (chain \<noteq> [] \<longrightarrow>
          (case entry_parent example_cycle (last chain) of
             None \<Rightarrow> False
           | Some p \<Rightarrow> is_root p \<or> map_of example_cycle p = None \<or> p \<in> set chain))
     \<and> length chain \<le> length example_cycle
     \<and> build_path example_cycle 10
         = join (pystr ''/'') (rev (map (entry_name example_cycle) chain))" ..
  have ne: "chain \<noteq> []"
    using c key by blast
  have "length example_cycle = 2"
    by (simp add: example_cycle_def)
  with c ne key build_path_example_cycle show ?thesis
    by (intro conjI exI [of _ chain]) simp_all
qed

subsection \<open>Entries of the catalog\<close>







subsection \<open>Recursion into inner packages\<close>

lemma foldl_load_pkg_entry:
  "foldl (load_pkg_entry env hfs) st ces =
     (fst st @ concat (map (inner_entries env hfs) ces),
      snd st @ concat (map (inner_warnings env hfs) ces))"
proof (induction ces arbitrary: st)
  case Nil
  then show ?case by simp
next
  case (Cons ce ces)
  have step: "load_pkg_entry env hfs st ce =
      (fst st @ inner_entries env hfs ce, snd st @ inner_warnings env hfs ce)"
    unfolding load_pkg_entry_def inner_entries_def inner_warnings_def PkgReader_init_def
    by (auto simp: Let_def split: prod.splits sum.splits)
  show ?case
    by (simp add: Cons.IH step)
qed

lemma PkgReader_load_example:
  "PkgReader_load example_pkg_env example_xar = Inr [example_entry ''b'', example_entry ''a'']"
  by (simp add: PkgReader_load_def parse_xar_header_def parse_xar_toc_def example_xar_def
      XAR_HEADER_SIZE_def XAR_MAGIC_def be_uint_def example_pkg_env_def example_toc_def
      extract_payload_def contains_def pystr_def read_cpio_from_payload_def example_cpio_def
      Let_def)

lemma PkgReader_load_example_bad:
  "PkgReader_load example_bad_pkg_env example_xar = Inl (ValueError ''Invalid cpio magic'')"
  by (simp add: PkgReader_load_def parse_xar_header_def parse_xar_toc_def example_xar_def
      XAR_HEADER_SIZE_def XAR_MAGIC_def be_uint_def example_bad_pkg_env_def example_toc_def
      extract_payload_def contains_def pystr_def read_cpio_from_payload_def
      example_cpio_fails_def Let_def)

lemma read_file_example: "read_file example_hfs 16 = Inr example_xar"
  by (simp add: read_file_def example_hfs_def FILE_RECORD_def example_xar_def)

lemma build_path_example: "build_path (entries example_hfs) 16 = pystr ''a.pkg''"
  by (simp add: build_path_def example_hfs_def build_path_loop.simps [of _ 16]
      ROOT_FOLDER_CNID_def)

lemma get_all_files_example:
  "get_all_files (entries example_hfs)
   = [\<lparr>path = pystr ''a.pkg'', size_bytes = 28, mode = 33188, uid = 0, gid = 0,
        is_dir = False, is_symlink = False, symlink_target = None\<rparr>]"
  using build_path_example
  by (simp add: get_all_files_def get_all_files_item_def example_hfs_def Let_def
      ROOT_FOLDER_CNID_def FILE_RECORD_def FOLDER_RECORD_def S_IFMT_def S_IFLNK_def pystr_def)

lemma entries_example:
  "entries example_hfs = [(16, (2, pystr ''a.pkg'', FILE_RECORD,
        \<lparr>info_mode = 33188, info_uid = 0, info_gid = 0, info_size = Some 28,
         info_extents = Some [(0, 1)]\<rparr>))]"
  by (simp add: example_hfs_def)

lemma inner_entries_example:
  "concat (map (inner_entries example_pkg_env example_hfs) (entries example_hfs))
   = [(example_entry ''b'')\<lparr>path := PKG_PREFIX @ pystr ''b''\<rparr>,
      (example_entry ''a'')\<lparr>path := PKG_PREFIX @ pystr ''a''\<rparr>]"
  using read_file_example PkgReader_load_example
  apply (simp add: entries_example inner_entries_def endswith_def)
  apply (simp add: pystr_def example_xar_def example_entry_def)
  done

lemma inner_warnings_example:
  "concat (map (inner_warnings example_pkg_env example_hfs) (entries example_hfs)) = []"
  using read_file_example PkgReader_load_example
  by (simp add: entries_example inner_warnings_def)

lemma inner_entries_example_bad:
  "concat (map (inner_entries example_bad_pkg_env example_hfs) (entries example_hfs)) = []"
  using read_file_example PkgReader_load_example_bad
  by (simp add: entries_example inner_entries_def)

lemma inner_warnings_example_bad:
  "concat (map (inner_warnings example_bad_pkg_env example_hfs) (entries example_hfs))
   = [WarnPkgFailed (pystr ''a.pkg'') (ValueError ''Invalid cpio magic'')]"
  using read_file_example PkgReader_load_example_bad build_path_example
  apply (simp add: entries_example inner_warnings_def endswith_def)
  apply (simp add: pystr_def example_xar_def)
  done

lemma sorted_example_items:
  "sort_key path
     ([\<lparr>path = pystr ''a.pkg'', size_bytes = 28, mode = 33188, uid = 0, gid = 0,
        is_dir = False, is_symlink = False, symlink_target = None\<rparr>]
      @ [(example_entry ''b'')\<lparr>path := PKG_PREFIX @ pystr ''b''\<rparr>,
         (example_entry ''a'')\<lparr>path := PKG_PREFIX @ pystr ''a''\<rparr>])
   = [(example_entry ''a'')\<lparr>path := PKG_PREFIX @ pystr ''a''\<rparr>,
      (example_entry ''b'')\<lparr>path := PKG_PREFIX @ pystr ''b''\<rparr>,
      \<lparr>path = pystr ''a.pkg'', size_bytes = 28, mode = 33188, uid = 0, gid = 0,
        is_dir = False, is_symlink = False, symlink_target = None\<rparr>]"
  by (simp add: pystr_def PKG_PREFIX_def example_entry_def)

text \<open>
  Claim C8. When the volume has been opened, \<open>_load\<close> returns: the items are the
  sorted list of the catalog entries and, for every catalog entry that is a file whose
  name ends in \<open>.pkg\<close> and whose bytes start with \<open>xar!\<close>, the entries of that inner
  package with \<open>@PKG@/\<close> put before each path. An inner package that cannot be read or
  parsed adds a warning to the diagnostic stream and no entry, and does not change what
  the other entries contribute.
\<close>

theorem DmgReader_load_inner_packages:
  "DmgReader_load env (Inr hfs) =
     Inr (sort_key path (get_all_files (entries hfs)
            @ concat (map (inner_entries env hfs) (entries hfs))),
          concat (map (inner_warnings env hfs) (entries hfs)))"
  by (simp add: DmgReader_load_def foldl_load_pkg_entry Let_def)

theorem DmgReader_load_inner_packages_witness:
  "DmgReader_load example_pkg_env (Inr example_hfs) =
     Inr ([(example_entry ''a'')\<lparr>path := PKG_PREFIX @ pystr ''a''\<rparr>,
           (example_entry ''b'')\<lparr>path := PKG_PREFIX @ pystr ''b''\<rparr>,
           \<lparr>path = pystr ''a.pkg'', size_bytes = 28, mode = 33188, uid = 0, gid = 0,
             is_dir = False, is_symlink = False, symlink_target = None\<rparr>], [])
   \<and> DmgReader_load example_bad_pkg_env (Inr example_hfs) =
     Inr ([\<lparr>path = pystr ''a.pkg'', size_bytes = 28, mode = 33188, uid = 0, gid = 0,
             is_dir = False, is_symlink = False, symlink_target = None\<rparr>],
          [WarnPkgFailed (pystr ''a.pkg'') (ValueError ''Invalid cpio magic'')])"
  using DmgReader_load_inner_packages [of example_pkg_env example_hfs]
    DmgReader_load_inner_packages [of example_bad_pkg_env example_hfs]
    sorted_example_items
  by (simp add: get_all_files_example inner_entries_example inner_warnings_example
      inner_entries_example_bad inner_warnings_example_bad)

subsection \<open>Order of the entries\<close>










section \<open>Properties of the UDIF chunk loop\<close>











section \<open>Properties of the CPIO writer\<close>









lemma encodable_utf8: "encodable s \<Longrightarrow> encode_utf8 s = Inr (utf8 s)"
  by (simp add: encodable_def utf8_def split: sum.splits)



lemma encode_utf8_ascii:
  "\<forall>c \<in> set s. (of_char c :: nat) < 128 \<Longrightarrow> encode_utf8 (pystr s) = Inr s"
  by (induction s) (simp_all add: pystr_def utf8_char_def)




lemma encodable_ascii: "\<forall>c \<in> set s. (of_char c :: nat) < 128 \<Longrightarrow> encodable (pystr s)"
  by (simp add: encodable_def encode_utf8_ascii)

lemma utf8_ascii: "\<forall>c \<in> set s. (of_char c :: nat) < 128 \<Longrightarrow> utf8 (pystr s) = s"
  by (simp add: utf8_def encode_utf8_ascii)

lemma replicate_numeral_unfold: "replicate (numeral k) x = x # replicate (pred_numeral k) x"
  by (simp add: numeral_eq_Suc)





section \<open>Properties of the RPM header builder\<close>

lemma length_be_bytes: "length (be_bytes n v) = n"
  by (simp add: be_bytes_def)

lemma padding_aligned: "0 < a \<Longrightarrow> (pos + padding a pos) mod a = 0"
proof (cases "pos mod a = 0")
  case True
  then show ?thesis by (simp add: padding_def)
next
  case False
  assume a: "0 < a"
  have lt: "pos mod a < a" using a by simp
  with False have p: "padding a pos = a - pos mod a"
    by (simp add: padding_def)
  have "(pos + padding a pos) mod a = (pos mod a + (a - pos mod a)) mod a"
    unfolding p by (simp add: mod_add_left_eq)
  also have "pos mod a + (a - pos mod a) = a" using lt by simp
  finally show ?thesis by simp
qed

lemma padding_one: "padding (Suc 0) pos = 0"
  by (simp add: padding_def)

lemma padding_step:
  "1 < a \<Longrightarrow> n mod a \<noteq> 0 \<Longrightarrow> padding a n = Suc (padding a (Suc n))"
proof -
  assume a: "1 < a" and nz: "n mod a \<noteq> 0"
  have lt: "n mod a < a" using a by simp
  show ?thesis
  proof (cases "Suc (n mod a) = a")
    case True
    then have "Suc n mod a = 0" by (simp add: mod_Suc)
    moreover from True have "a - n mod a = Suc 0" by linarith
    ultimately show ?thesis using a by (simp add: padding_def)
  next
    case False
    then have s: "Suc n mod a = Suc (n mod a)" by (simp add: mod_Suc)
    from False lt have "Suc (n mod a) < a" by linarith
    then show ?thesis using nz lt by (simp add: padding_def s Suc_diff_Suc)
  qed
qed

lemma align2_eq: "align2 ds = ds @ replicate (padding 2 (length ds)) (CHR 0x00)"
proof (induction ds rule: align2.induct)
  case (1 ds)
  show ?case
  proof (cases "length ds mod 2 = 0")
    case True
    then show ?thesis by (simp add: align2.simps [of ds] padding_def)
  next
    case False
    from padding_step [of 2 "length ds"] False
    have "padding 2 (length ds) = Suc (padding 2 (Suc (length ds)))" by simp
    with "1.IH" False show ?thesis
      by (simp add: align2.simps [of ds])
  qed
qed

lemma align4_eq: "align4 ds = ds @ replicate (padding 4 (length ds)) (CHR 0x00)"
proof (induction ds rule: align4.induct)
  case (1 ds)
  show ?case
  proof (cases "length ds mod 4 = 0")
    case True
    then show ?thesis by (simp add: align4.simps [of ds] padding_def)
  next
    case False
    from padding_step [of 4 "length ds"] False
    have "padding 4 (length ds) = Suc (padding 4 (Suc (length ds)))" by simp
    with "1.IH" False show ?thesis
      by (simp add: align4.simps [of ds])
  qed
qed

lemma pack_all_ok:
  "\<forall>v \<in> set d. 0 \<le> v \<and> v < 256 ^ n \<Longrightarrow>
   pack_all n d = Inr (concat (map (\<lambda>v. be_bytes n (nat v)) d))"
  by (induction d) (simp_all add: pack_uint_def)

lemma encode_all_ok:
  "\<forall>s \<in> set ss. encodable s \<Longrightarrow>
   encode_all ss = Inr (concat (map (\<lambda>s. utf8 s @ [CHR 0x00]) ss))"
  by (induction ss) (simp_all add: encodable_utf8)

lemma build_entry_ok:
  assumes "value_ok v"
  shows "build_entry (ds, ix) (tag, v) =
     Inr (ds @ replicate (padding (value_align v) (length ds)) (CHR 0x00) @ value_bytes v,
          ix @ [\<lparr>ie_tag = tag, ie_type = dtype v,
                 ie_offset = length ds + padding (value_align v) (length ds),
                 ie_count = value_count v\<rparr>])"
proof (cases v)
  case (Int16 d)
  with assms have "\<forall>v \<in> set d. 0 \<le> v \<and> v < 256 ^ 2" by simp
  from pack_all_ok [OF this] show ?thesis
    by (simp add: build_entry_def Int16 align2_eq)
next
  case (Int32 d)
  with assms have "\<forall>v \<in> set d. 0 \<le> v \<and> v < 256 ^ 4" by (simp add: u32_def)
  from pack_all_ok [OF this] show ?thesis
    by (simp add: build_entry_def Int32 align4_eq)
next
  case (Int64 d)
  with assms show ?thesis by simp
next
  case (String s)
  with assms show ?thesis
    by (simp add: build_entry_def encodable_utf8 padding_one)
next
  case (StringArray ss)
  with assms have "\<forall>s \<in> set ss. encodable s" by simp
  from encode_all_ok [OF this] show ?thesis
    by (simp add: build_entry_def StringArray padding_one)
next
  case (I18NString s)
  with assms show ?thesis
    by (simp add: build_entry_def encodable_utf8 padding_one)
next
  case (Bin b)
  then show ?thesis
    by (simp add: build_entry_def padding_one)
qed

lemma build_entries_layout:
  "\<forall>e \<in> set es. value_ok (snd e) \<Longrightarrow>
   build_entries (ds, ix) es =
     Inr (ds @ snd (layout (length ds) es), ix @ fst (layout (length ds) es))"
proof (induction es arbitrary: ds ix)
  case Nil
  then show ?case by simp
next
  case (Cons e es)
  obtain tag v where e: "e = (tag, v)" by (cases e)
  from Cons.prems e have v: "value_ok v" and r: "\<forall>e \<in> set es. value_ok (snd e)"
    by simp_all
  show ?case
    unfolding e
    by (simp add: build_entry_ok [OF v] Cons.IH [OF r] Let_def add.assoc)
qed

lemma length_layout: "length (fst (layout pos es)) = length es"
  by (induction es arbitrary: pos) (simp_all add: Let_def)

lemma layout_tags: "map ie_tag (fst (layout pos es)) = map fst es"
  by (induction es arbitrary: pos) (simp_all add: Let_def)

lemma value_count_le: "value_count v \<le> max 1 (length (value_bytes v))"
proof (cases v)
  case (Int16 d)
  have "length (concat (map (\<lambda>v. be_bytes 2 (nat v)) d)) = 2 * length d"
    by (induction d) (simp_all add: length_be_bytes)
  then show ?thesis by (simp add: Int16)
next
  case (Int32 d)
  have "length (concat (map (\<lambda>v. be_bytes 4 (nat v)) d)) = 4 * length d"
    by (induction d) (simp_all add: length_be_bytes)
  then show ?thesis by (simp add: Int32)
next
  case (Int64 d)
  have "length (concat (map (\<lambda>v. be_bytes 8 (nat v)) d)) = 8 * length d"
    by (induction d) (simp_all add: length_be_bytes)
  then show ?thesis by (simp add: Int64)
next
  case (StringArray ss)
  have "length ss \<le> length (concat (map (\<lambda>s. utf8 s @ [CHR 0x00]) ss))"
    by (induction ss) simp_all
  then show ?thesis by (simp add: StringArray)
qed simp_all

lemma layout_bounds:
  "ie \<in> set (fst (layout pos es)) \<Longrightarrow>
   ie_offset ie \<le> pos + length (snd (layout pos es))
   \<and> ie_count ie \<le> max 1 (length (snd (layout pos es)))
   \<and> ie_type ie \<le> 9"
proof (induction es arbitrary: pos)
  case Nil
  then show ?case by simp
next
  case (Cons e es)
  let ?pad = "padding (value_align (snd e)) pos"
  let ?pos' = "pos + ?pad + length (value_bytes (snd e))"
  from Cons.prems consider
    (hd) "ie = \<lparr>ie_tag = fst e, ie_type = dtype (snd e), ie_offset = pos + ?pad,
                 ie_count = value_count (snd e)\<rparr>"
    | (tl) "ie \<in> set (fst (layout ?pos' es))"
    by (auto simp: Let_def)
  then show ?case
  proof cases
    case hd
    have "dtype (snd e) \<le> 9"
      by (cases "snd e") (simp_all add: HEADER_INT16_def HEADER_INT32_def HEADER_INT64_def
          HEADER_STRING_def HEADER_STRING_ARRAY_def HEADER_I18NSTRING_def HEADER_BIN_def)
    with value_count_le [of "snd e"] show ?thesis
      by (auto simp: hd Let_def)
  next
    case tl
    from Cons.IH [OF tl] show ?thesis
      by (auto simp: Let_def)
  qed
qed

lemma layout_nth:
  "i < length es \<Longrightarrow>
   ie_tag (fst (layout pos es) ! i) = fst (es ! i)
   \<and> ie_type (fst (layout pos es) ! i) = dtype (snd (es ! i))
   \<and> ie_count (fst (layout pos es) ! i) = value_count (snd (es ! i))
   \<and> ie_offset (fst (layout pos es) ! i) mod value_align (snd (es ! i)) = 0
   \<and> pos \<le> ie_offset (fst (layout pos es) ! i)
   \<and> take (length (value_bytes (snd (es ! i))))
        (drop (ie_offset (fst (layout pos es) ! i) - pos) (snd (layout pos es)))
      = value_bytes (snd (es ! i))"
proof (induction es arbitrary: pos i)
  case Nil
  then show ?case by simp
next
  case (Cons e es)
  let ?pad = "padding (value_align (snd e)) pos"
  let ?pos' = "pos + ?pad + length (value_bytes (snd e))"
  have al: "0 < value_align (snd e)" by (cases "snd e") simp_all
  show ?case
  proof (cases i)
    case 0
    then show ?thesis
      using padding_aligned [OF al, of pos] by (simp add: Let_def)
  next
    case (Suc j)
    with Cons.prems have j: "j < length es" by simp
    from Cons.IH [OF j, of ?pos'] have ih:
      "ie_tag (fst (layout ?pos' es) ! j) = fst (es ! j)"
      "ie_type (fst (layout ?pos' es) ! j) = dtype (snd (es ! j))"
      "ie_count (fst (layout ?pos' es) ! j) = value_count (snd (es ! j))"
      "ie_offset (fst (layout ?pos' es) ! j) mod value_align (snd (es ! j)) = 0"
      "?pos' \<le> ie_offset (fst (layout ?pos' es) ! j)"
      "take (length (value_bytes (snd (es ! j))))
        (drop (ie_offset (fst (layout ?pos' es) ! j) - ?pos') (snd (layout ?pos' es)))
        = value_bytes (snd (es ! j))"
      by simp_all
    let ?o = "ie_offset (fst (layout ?pos' es) ! j)"
    have d: "?o - pos = ?pad + (length (value_bytes (snd e)) + (?o - ?pos'))"
      using ih(5) by simp
    have "drop (?o - pos)
            (replicate ?pad (CHR 0x00) @ value_bytes (snd e) @ snd (layout ?pos' es))
          = drop (?o - ?pos') (snd (layout ?pos' es))"
      unfolding d by simp
    with ih show ?thesis
      by (simp add: Suc Let_def add.assoc)
  qed
qed

lemma pack_index_ok:
  assumes "u32 (ie_tag ie)" "ie_type ie < 4294967296" "ie_offset ie < 4294967296"
    "ie_count ie < 4294967296"
  shows "pack_index ie = Inr (index_bytes ie)"
  using assms by (simp add: pack_index_def pack_uint_def index_bytes_def u32_def)

lemma pack_indexes_ok:
  "\<forall>ie \<in> set ixs. u32 (ie_tag ie) \<and> ie_type ie < 4294967296 \<and> ie_offset ie < 4294967296
      \<and> ie_count ie < 4294967296 \<Longrightarrow>
   pack_indexes ixs = Inr (concat (map index_bytes ixs))"
  by (induction ixs) (simp_all add: pack_index_ok)

lemma build_ok:
  assumes "entries_ok es"
  shows "build es = Inr (header_bytes (layout 0 (sort_key fst es)))"
proof -
  let ?s = "sort_key fst es"
  let ?ixs = "fst (layout 0 ?s)"
  let ?store = "snd (layout 0 ?s)"
  from assms have ok: "\<forall>e \<in> set ?s. value_ok (snd e)"
    and tg: "\<forall>e \<in> set ?s. u32 (fst e)"
    and n: "length es < 4294967296" and sl: "length ?store < 4294967296"
    by (simp_all add: entries_ok_def)
  have be: "build_entries ([], []) ?s = Inr (?store, ?ixs)"
    using build_entries_layout [OF ok, of "[]" "[]"] by simp
  have ix: "\<forall>ie \<in> set ?ixs. u32 (ie_tag ie) \<and> ie_type ie < 4294967296
      \<and> ie_offset ie < 4294967296 \<and> ie_count ie < 4294967296"
  proof
    fix ie assume m: "ie \<in> set ?ixs"
    then have "ie_tag ie \<in> set (map ie_tag ?ixs)" by simp
    then have "ie_tag ie \<in> fst ` set ?s" by (simp add: layout_tags)
    with tg have t: "u32 (ie_tag ie)" by auto
    from layout_bounds [OF m] sl t
    show "u32 (ie_tag ie) \<and> ie_type ie < 4294967296
      \<and> ie_offset ie < 4294967296 \<and> ie_count ie < 4294967296"
      by auto
  qed
  have ln: "length ?ixs = length es" by (simp add: length_layout)
  have ver: "pack_uint (Suc 0) RPM_HEADER_VERSION = Inr [CHR 0x01]"
    by (simp add: pack_uint_def RPM_HEADER_VERSION_def be_bytes_def char_of_def bit_iff_odd)
  have pn: "pack_uint 4 (int (length ?ixs)) = Inr (be_bytes 4 (length ?ixs))"
    using n by (simp add: pack_uint_def ln)
  have pd: "pack_uint 4 (int (length ?store)) = Inr (be_bytes 4 (length ?store))"
    using sl by (simp add: pack_uint_def)
  show ?thesis
    by (simp add: build_def be ver pn pd pack_indexes_ok [OF ix] header_bytes_def)
qed

lemma build_entries_no_int64:
  "build_entries st es = Inr st' \<Longrightarrow> (tag, Int64 d) \<notin> set es"
proof (induction es arbitrary: st)
  case Nil
  then show ?case by simp
next
  case (Cons e es)
  from Cons.prems obtain st1 where s: "build_entry st e = Inr st1"
    and r: "build_entries st1 es = Inr st'"
    by (auto split: sum.splits)
  from s have "e \<noteq> (tag, Int64 d)"
    by (auto simp: build_entry_def)
  with Cons.IH [OF r] show ?case by simp
qed

lemma build_int64_fails:
  assumes "(tag, Int64 d) \<in> set es"
  shows "\<exists>err. build es = Inl err"
proof (cases "build_entries ([], []) (sort_key fst es)")
  case (Inl err)
  then show ?thesis by (simp add: build_def)
next
  case (Inr st')
  from build_entries_no_int64 [OF Inr, of tag d] assms show ?thesis by simp
qed

text \<open>
  Claim C5, as the code has it. For every list of entries whose values are of the kinds
  Int16, Int32, String, StringArray, I18NString and Bin, with integers and tags in the
  range of their field, strings that can be encoded, and fewer than \<open>2 ^ 32\<close> entries
  and bytes, \<open>build\<close> succeeds and returns the header of the layout of the entries
  sorted by tag: magic, version, four reserved bytes, the two counts, the index and the
  data store. The index entries are in ascending tag order; entry \<open>i\<close> carries the
  tag and type of the \<open>i\<close>-th sorted entry, the count of its value (the number of
  elements of an array of integers or of strings, 1 for a string, the length of binary
  data), and an offset that is a multiple of 2 for INT16 and of 4 for INT32, at which
  the data store holds the bytes of the value, strings ending in a NUL. A list that
  has an Int64 entry makes \<open>build\<close> raise.
\<close>

theorem build_emits_layout:
  "(entries_ok es \<longrightarrow>
      build es = Inr (header_bytes (layout 0 (sort_key fst es)))
      \<and> sorted (map ie_tag (fst (layout 0 (sort_key fst es))))
      \<and> length (fst (layout 0 (sort_key fst es))) = length es
      \<and> (\<forall>i < length es.
            ie_tag (fst (layout 0 (sort_key fst es)) ! i) = fst (sort_key fst es ! i)
            \<and> ie_type (fst (layout 0 (sort_key fst es)) ! i)
                = dtype (snd (sort_key fst es ! i))
            \<and> ie_count (fst (layout 0 (sort_key fst es)) ! i)
                = value_count (snd (sort_key fst es ! i))
            \<and> ie_offset (fst (layout 0 (sort_key fst es)) ! i)
                mod value_align (snd (sort_key fst es ! i)) = 0
            \<and> take (length (value_bytes (snd (sort_key fst es ! i))))
                 (drop (ie_offset (fst (layout 0 (sort_key fst es)) ! i))
                    (snd (layout 0 (sort_key fst es))))
               = value_bytes (snd (sort_key fst es ! i))))
   \<and> ((\<exists>tag d. (tag, Int64 d) \<in> set es) \<longrightarrow> (\<exists>err. build es = Inl err))"
proof (intro conjI impI allI)
  assume ok: "entries_ok es"
  show "build es = Inr (header_bytes (layout 0 (sort_key fst es)))"
    by (rule build_ok [OF ok])
  show "sorted (map ie_tag (fst (layout 0 (sort_key fst es))))"
    by (simp add: layout_tags)
  show "length (fst (layout 0 (sort_key fst es))) = length es"
    by (simp add: length_layout)
  fix i assume "i < length es"
  then have i: "i < length (sort_key fst es)" by simp
  from layout_nth [OF i, of 0]
  show "ie_tag (fst (layout 0 (sort_key fst es)) ! i) = fst (sort_key fst es ! i)"
    "ie_type (fst (layout 0 (sort_key fst es)) ! i) = dtype (snd (sort_key fst es ! i))"
    "ie_count (fst (layout 0 (sort_key fst es)) ! i)
       = value_count (snd (sort_key fst es ! i))"
    "ie_offset (fst (layout 0 (sort_key fst es)) ! i)
       mod value_align (snd (sort_key fst es ! i)) = 0"
    "take (length (value_bytes (snd (sort_key fst es ! i))))
       (drop (ie_offset (fst (layout 0 (sort_key fst es)) ! i))
          (snd (layout 0 (sort_key fst es))))
     = value_bytes (snd (sort_key fst es ! i))"
    by simp_all
next
  assume "\<exists>tag d. (tag, Int64 d) \<in> set es"
  then show "\<exists>err. build es = Inl err"
    using build_int64_fails by blast
qed


lemma map_upt_4: "map f [0..<4] = [f 0, f 1, f 2, f 3]"
proof -
  have "[0..<4] = [0, 1, 2, 3::nat]" by (simp add: eval_nat_numeral)
  then show ?thesis by simp
qed

lemma map_upt_2: "map f [0..<2] = [f 0, f 1]"
proof -
  have "[0..<2] = [0, 1::nat]" by (simp add: eval_nat_numeral)
  then show ?thesis by simp
qed

lemma be_bytes_4:
  "be_bytes 4 v = [char_of (v div 16777216), char_of (v div 65536), char_of (v div 256),
     char_of v]"
  unfolding be_bytes_def map_upt_4 by simp

lemma be_bytes_2: "be_bytes 2 v = [char_of (v div 256), char_of v]"
  unfolding be_bytes_def map_upt_2 by simp

lemma layout_example:
  "layout 0 (sort_key fst [(1002, Int32 [7]), (1000, String (pystr ''ab'')), (1001, Int16 [1])])
   = ([\<lparr>ie_tag = 1000, ie_type = 6, ie_offset = 0, ie_count = 1\<rparr>,
       \<lparr>ie_tag = 1001, ie_type = 3, ie_offset = 4, ie_count = 1\<rparr>,
       \<lparr>ie_tag = 1002, ie_type = 4, ie_offset = 8, ie_count = 1\<rparr>],
      ''ab'' @ [CHR 0x00, CHR 0x00, CHR 0x00, CHR 0x01, CHR 0x00, CHR 0x00,
               CHR 0x00, CHR 0x00, CHR 0x00, CHR 0x07])"
proof -
  have a: "utf8 (pystr ''ab'') = ''ab''"
    by (rule utf8_ascii) simp
  show ?thesis
    by (simp add: Let_def padding_def a be_bytes_4 be_bytes_2 char_of_def bit_iff_odd
        HEADER_INT16_def HEADER_INT32_def HEADER_STRING_def replicate_numeral_unfold)
qed

theorem build_emits_layout_witness:
  "entries_ok [(1002, Int32 [7]), (1000, String (pystr ''ab'')), (1001, Int16 [1])]
   \<and> build [(1002, Int32 [7]), (1000, String (pystr ''ab'')), (1001, Int16 [1])] =
       Inr [CHR 0x8E, CHR 0xAD, CHR 0xE8, CHR 0x01, CHR 0x00, CHR 0x00, CHR 0x00, CHR 0x00,
               CHR 0x00, CHR 0x00, CHR 0x00, CHR 0x03, CHR 0x00, CHR 0x00, CHR 0x00, CHR 0x0C,
               CHR 0x00, CHR 0x00, CHR 0x03, CHR 0xE8, CHR 0x00, CHR 0x00, CHR 0x00, CHR 0x06,
               CHR 0x00, CHR 0x00, CHR 0x00, CHR 0x00, CHR 0x00, CHR 0x00, CHR 0x00, CHR 0x01,
               CHR 0x00, CHR 0x00, CHR 0x03, CHR 0xE9, CHR 0x00, CHR 0x00, CHR 0x00, CHR 0x03,
               CHR 0x00, CHR 0x00, CHR 0x00, CHR 0x04, CHR 0x00, CHR 0x00, CHR 0x00, CHR 0x01,
               CHR 0x00, CHR 0x00, CHR 0x03, CHR 0xEA, CHR 0x00, CHR 0x00, CHR 0x00, CHR 0x04,
               CHR 0x00, CHR 0x00, CHR 0x00, CHR 0x08, CHR 0x00, CHR 0x00, CHR 0x00, CHR 0x01,
               CHR 0x61, CHR 0x62, CHR 0x00, CHR 0x00, CHR 0x00, CHR 0x01, CHR 0x00, CHR 0x00,
               CHR 0x00, CHR 0x00, CHR 0x00, CHR 0x07]"
proof -
  have ok: "entries_ok [(1002, Int32 [7]), (1000, String (pystr ''ab'')), (1001, Int16 [1])]"
    unfolding entries_ok_def layout_example
    by (simp add: u32_def encodable_ascii)
  from build_emits_layout [of "[(1002, Int32 [7]), (1000, String (pystr ''ab'')), (1001, Int16 [1])]"]
    ok
  have "build [(1002, Int32 [7]), (1000, String (pystr ''ab'')), (1001, Int16 [1])]
      = Inr (header_bytes (layout 0 (sort_key fst
          [(1002, Int32 [7]), (1000, String (pystr ''ab'')), (1001, Int16 [1])])))"
    by blast
  then show ?thesis
    using ok unfolding layout_example
    by (simp add: header_bytes_def index_bytes_def RPM_HEADER_MAGIC_def be_bytes_4
        char_of_def bit_iff_odd replicate_numeral_unfold)
qed

text \<open>
  The claim as stated fails: an Int64 entry reaches the branch that raises
  \<open>ValueError\<close>, and an INT16 value beyond 16 bits makes \<open>struct.pack\<close> raise.
\<close>

theorem build_int64_counterexample:
  "build [(1000, Int64 [1])] = Inl (ValueError ''Unsupported header type'')
   \<and> build [(1030, Int16 [65536])] = Inl StructError"
  by (simp add: build_def build_entry_def align4.simps [of "[]"] align2.simps [of "[]"]
      pack_uint_def)


section \<open>Properties of the RPM writer\<close>





















subsection \<open>Payload compression\<close>











end
